theory Spec2Isabelle
  imports Main "HOL-Library.Word"
begin

section \<open>The native extension \<open>my_c_module\<close>\<close>

text \<open>
  The module (\<open>src/my_c_module.c\<close>) has two functions: the kernel \<open>c_factorial\<close>, a loop
  over machine integers, and the adapter \<open>py_factorial\<close>, which parses the host's argument
  tuple, calls the kernel and wraps the result into a host integer.

  Machine integers are modelled for an LP64 platform: \<open>int\<close> has 32 bits and \<open>long\<close> has
  64 bits. Both are signed; a word is read as two's complement by \<open>sint\<close>. Signed overflow
  is undefined in ISO C; it is modelled as two's complement wrap-around, which is the
  reading the specification adopts (``silently wrapped'').
\<close>

subsection \<open>Native integers\<close>

type_synonym c_int = "32 word"
type_synonym c_long = "64 word"

definition INT_MAX :: c_int where
  "INT_MAX = 0x7FFFFFFF"

definition INT_MIN :: c_int where
  "INT_MIN = 0x80000000"

definition LONG_MAX :: int where
  "LONG_MAX = 9223372036854775807"

subsection \<open>The kernel\<close>

text \<open>
  \<^verbatim>\<open>
  long c_factorial(int n) {
      long result = 1;
      for (int i = 2; i <= n; i++) {
          result *= i;
      }
      return result;
  }
  \<close>
  The loop is a function of the loop variables \<open>i\<close> and \<open>result\<close>. The comparison
  \<open>i <= n\<close> is the signed one on \<open>int\<close>; \<open>result *= i\<close> converts \<open>i\<close> to \<open>long\<close>
  (sign extension, \<open>scast\<close>) and multiplies at the width of \<open>long\<close>; \<open>i++\<close> is an addition
  at the width of \<open>int\<close>. Nothing in the text of the loop bounds the number of
  iterations, so the loop is a partial function: \<open>None\<close> means that it does not return.
\<close>

partial_function (option) c_factorial_loop :: "c_int \<Rightarrow> c_int \<Rightarrow> c_long \<Rightarrow> c_long option" where
  "c_factorial_loop n i result =
     (if i \<le>s n then c_factorial_loop n (i + 1) (result * scast i) else Some result)"

declare c_factorial_loop.simps [code]

definition c_factorial :: "c_int \<Rightarrow> c_long option" where
  "c_factorial n = c_factorial_loop n 2 1"

text \<open>
  For comparison only, the kernel as the specification's data model words it: one
  fixed-width signed type, NativeInteger, for the parameter and for the accumulator
  alike. It is the loop above with the accumulator at the parameter's width.
\<close>

partial_function (option) NativeInteger_factorial_loop :: "c_int \<Rightarrow> c_int \<Rightarrow> c_int \<Rightarrow> c_int option" where
  "NativeInteger_factorial_loop n i result =
     (if i \<le>s n then NativeInteger_factorial_loop n (i + 1) (result * i) else Some result)"

declare NativeInteger_factorial_loop.simps [code]

definition NativeInteger_factorial :: "c_int \<Rightarrow> c_int option" where
  "NativeInteger_factorial n = NativeInteger_factorial_loop n 2 1"

subsection \<open>The host runtime\<close>

text \<open>
  Host values, as far as the adapter can tell them apart: integers of unbounded size,
  booleans (in the host a subtype of the integers), text, the null object, and an
  object of a user class whose integer-index method returns the given integer.
\<close>

datatype py_object =
    PyLong int
  | PyBool bool
  | PyUnicode string
  | PyNone
  | PyIndexable int

text \<open>The errors of the specification's taxonomy that the host can be told of.\<close>

datatype adapter_error = ArityError | TypeConversionError

text \<open>
  The interpreter state that a call can observe or change: the error indicator, the
  out-of-band slot through which a failure is signalled.
\<close>

record interp =
  err_indicator :: "adapter_error option"

text \<open>
  Modelled from the spec: the host's conversion protocol behind the format unit \<open>"i"\<close>
  is code of the host runtime, not of \<open>src/\<close>. The specification leaves the accepted
  host types to the host (4.2, step 1); the host's documented protocol takes an integer
  or an instance of a subtype of it as its value, and any other object through its
  integer-index method, and has no conversion for the rest.
\<close>

fun as_integer :: "py_object \<Rightarrow> int option" where
  "as_integer (PyLong v) = Some v"
| "as_integer (PyBool b) = Some (if b then 1 else 0)"
| "as_integer (PyIndexable v) = Some v"
| "as_integer (PyUnicode _) = None"
| "as_integer PyNone = None"

text \<open>
  Modelled from the spec: conversion of one host value to NativeInteger fails for a wrong
  type or a value out of the native range (4.2, step 1); the native type is the
  \<open>int\<close> that the adapter passes the address of.
\<close>

definition convert_i :: "py_object \<Rightarrow> c_int option" where
  "convert_i x =
     (case as_integer x of
        None \<Rightarrow> None
      | Some v \<Rightarrow> if - 2147483648 \<le> v \<and> v \<le> 2147483647 then Some (word_of_int v) else None)"

text \<open>
  Modelled from the spec: \<open>PyArg_ParseTuple(args, "i", &n)\<close> is the host's parser, not in
  \<open>src/\<close>. It expects exactly one element (4.2, step 1) and converts it; on failure it
  sets the error indicator (ArityError or TypeConversionError, section 7) and returns
  false, here \<open>None\<close>; on success it returns true and has written the \<open>int\<close>, here
  \<open>Some n\<close>.
\<close>

fun PyArg_ParseTuple :: "interp \<Rightarrow> py_object list \<Rightarrow> c_int option \<times> interp" where
  "PyArg_ParseTuple s [x] =
     (case convert_i x of
        Some n \<Rightarrow> (Some n, s)
      | None \<Rightarrow> (None, s\<lparr>err_indicator := Some TypeConversionError\<rparr>))"
| "PyArg_ParseTuple s args = (None, s\<lparr>err_indicator := Some ArityError\<rparr>)"

text \<open>
  Modelled from the spec: \<open>PyLong_FromLong\<close> is the host's constructor, not in \<open>src/\<close>;
  it wraps the NativeInteger into a new host value (4.2, step 3), the host integer of the
  same signed value.
\<close>

definition PyLong_FromLong :: "c_long \<Rightarrow> py_object" where
  "PyLong_FromLong v = PyLong (sint v)"

subsection \<open>The adapter\<close>

text \<open>
  \<^verbatim>\<open>
  static PyObject* py_factorial(PyObject* self, PyObject* args) {
      int n;
      if (!PyArg_ParseTuple(args, "i", &n)) {
          return NULL;
      }
      long result = c_factorial(n);
      return PyLong_FromLong(result);
  }
  \<close>
  A call that returns yields the returned pointer (\<open>None\<close> is \<open>NULL\<close>), the interpreter
  state it leaves, and the arguments of the kernel calls it made, in order. The last
  component is not data of the program: it records which calls the text of the function
  makes, so that a statement about the kernel not being called can be written down.
  The module object \<open>self\<close> is not used. A call in which the kernel does not return does
  not return either.
\<close>

record call_result =
  returned :: "py_object option"
  interp_after :: interp
  kernel_calls :: "c_int list"

definition py_factorial :: "interp \<Rightarrow> py_object list \<Rightarrow> call_result option" where
  "py_factorial s args =
     (case PyArg_ParseTuple s args of
        (None, s') \<Rightarrow> Some \<lparr>returned = None, interp_after = s', kernel_calls = []\<rparr>
      | (Some n, s') \<Rightarrow>
          (case c_factorial n of
             None \<Rightarrow> None
           | Some result \<Rightarrow>
               Some \<lparr>returned = Some (PyLong_FromLong result), interp_after = s',
                     kernel_calls = [n]\<rparr>))"

section \<open>The kernel's loop\<close>

lemma sint_succ:
  fixes i :: c_int
  assumes "sint i < 2147483647"
  shows "sint (i + 1) = sint i + 1"
  using assms sint_ge [of i]
  by (simp add: sint_word_ariths signed_take_bit_int_eq_self)

text \<open>With \<open>n = INT_MAX\<close> the test \<open>i <= n\<close> holds for every \<open>int\<close>: the loop has no exit.\<close>

lemma c_factorial_loop_no_exit:
  assumes "c_factorial_loop n i r = Some y"
  shows "n \<noteq> INT_MAX"
proof (rule c_factorial_loop.raw_induct [where P = "\<lambda>n i r y. n \<noteq> INT_MAX", OF _ assms])
  fix f :: "c_int \<Rightarrow> c_int \<Rightarrow> c_long \<Rightarrow> c_long option" and n i :: c_int and r y :: c_long
  assume IH: "\<And>n i r y. f n i r = Some y \<Longrightarrow> n \<noteq> INT_MAX"
    and body: "(if i \<le>s n then f n (i + 1) (r * scast i) else Some r) = Some y"
  show "n \<noteq> INT_MAX"
  proof
    assume n: "n = INT_MAX"
    have "sint i \<le> 2147483647"
      using sint_lt [of i] by simp
    then have "i \<le>s n"
      by (simp add: n INT_MAX_def word_sle_eq)
    with body have "f n (i + 1) (r * scast i) = Some y"
      by simp
    from IH [OF this] n show False
      by simp
  qed
qed

lemma c_factorial_loop_INT_MAX: "c_factorial_loop INT_MAX i r = None"
proof (cases "c_factorial_loop INT_MAX i r")
  case None
  then show ?thesis .
next
  case (Some y)
  from c_factorial_loop_no_exit [OF this] show ?thesis
    by simp
qed

text \<open>
  For every other \<open>n\<close> the loop runs from \<open>i\<close> to \<open>n\<close> without wrapping the counter, and
  multiplies the factorial of \<open>i - 1\<close> up to the factorial of \<open>n\<close>, at the width of
  \<open>long\<close>.
\<close>

lemma scast_nonneg:
  fixes i :: c_int
  assumes "0 \<le> sint i"
  shows "(scast i :: c_long) = of_nat (nat (sint i))"
proof -
  have "(of_nat (nat (sint i)) :: c_long) = of_int (int (nat (sint i)))"
    by (simp only: of_int_of_nat_eq)
  also have "int (nat (sint i)) = sint i"
    using assms by simp
  also have "(of_int (sint i) :: c_long) = scast i"
    by (rule of_int_sint)
  finally show ?thesis
    by (rule sym)
qed

lemma c_factorial_loop_closed:
  assumes "sint n < 2147483647" and "2 \<le> sint i" and "sint i \<le> sint n + 1"
  shows "c_factorial_loop n i (of_nat (fact (nat (sint i) - 1))) = Some (of_nat (fact (nat (sint n))))"
  using assms
proof (induction k \<equiv> "nat (sint n + 1 - sint i)" arbitrary: i)
  case 0
  then have eq: "sint i = sint n + 1"
    by simp
  then have "\<not> i \<le>s n"
    by (simp add: word_sle_eq)
  moreover from eq have "nat (sint i) - 1 = nat (sint n)"
    by simp
  ultimately show ?case
    by (subst c_factorial_loop.simps) simp
next
  case (Suc k)
  then have le: "sint i \<le> sint n"
    by simp
  then have succ: "sint (i + 1) = sint i + 1"
    using Suc.prems(1) by (simp add: sint_succ)
  have pos: "0 < nat (sint i)"
    using Suc.prems(2) by simp
  have acc: "(of_nat (fact (nat (sint i) - 1)) :: c_long) * scast i = of_nat (fact (nat (sint (i + 1)) - 1))"
  proof -
    have "nat (sint (i + 1)) - 1 = nat (sint i)"
      using Suc.prems(2) by (simp add: succ)
    moreover have "0 \<le> sint i"
      using Suc.prems(2) by simp
    then have "(scast i :: c_long) = of_nat (nat (sint i))"
      by (rule scast_nonneg)
    moreover have "fact (nat (sint i)) = nat (sint i) * fact (nat (sint i) - 1)"
      using pos by (simp add: fact_reduce)
    ultimately show ?thesis
      by (simp add: mult.commute)
  qed
  have "c_factorial_loop n (i + 1) (of_nat (fact (nat (sint (i + 1)) - 1))) = Some (of_nat (fact (nat (sint n))))"
  proof (rule Suc.hyps(1))
    show "k = nat (sint n + 1 - sint (i + 1))"
      using Suc.hyps(2) by (simp add: succ)
    show "sint n < 2147483647" by (rule Suc.prems(1))
    show "2 \<le> sint (i + 1)" using Suc.prems(2) by (simp add: succ)
    show "sint (i + 1) \<le> sint n + 1" using le by (simp add: succ)
  qed
  with le acc show ?case
    by (subst c_factorial_loop.simps) (simp add: word_sle_eq)
qed

lemma c_factorial_value:
  assumes "sint n < 2147483647"
  shows "c_factorial n = Some (of_nat (fact (nat (sint n))))"
proof (cases "sint n \<le> 1")
  case True
  then have "\<not> 2 \<le>s n"
    by (simp add: word_sle_eq)
  moreover from True have "nat (sint n) = 0 \<or> nat (sint n) = 1"
    by auto
  then have "fact (nat (sint n)) = (1::nat)"
    by auto
  ultimately show ?thesis
    unfolding c_factorial_def by (subst c_factorial_loop.simps) simp
next
  case False
  have "c_factorial_loop n 2 (of_nat (fact (nat (sint (2 :: c_int)) - 1))) = Some (of_nat (fact (nat (sint n))))"
    using assms False by (intro c_factorial_loop_closed) simp_all
  then show ?thesis
    by (simp add: c_factorial_def)
qed

lemma sint_of_nat_long:
  assumes "int k \<le> LONG_MAX"
  shows "sint (of_nat k :: c_long) = int k"
proof -
  have "signed_take_bit 63 (int k) = int k"
    using assms by (intro signed_take_bit_int_eq_self) (simp_all add: LONG_MAX_def)
  moreover have "sint (word_of_int (int k) :: c_long) = signed_take_bit 63 (int k)"
    by (simp only: sint_sbintrunc') simp
  ultimately show ?thesis
    by (simp only: of_int_of_nat_eq)
qed

lemma fact_le_20:
  assumes "k \<le> 20"
  shows "int (fact k) \<le> LONG_MAX"
proof -
  have "fact k \<le> (fact 20 :: nat)"
    using assms by (rule fact_mono)
  then have "int (fact k) \<le> int (fact 20)"
    by (simp only: of_nat_le_iff)
  also have "int (fact 20) \<le> LONG_MAX"
    by (simp add: fact_numeral LONG_MAX_def)
  finally show ?thesis .
qed

lemma fact_ge_21:
  assumes "21 \<le> k"
  shows "LONG_MAX < int (fact k)"
proof -
  have "LONG_MAX < int (fact 21)"
    by (simp add: fact_numeral LONG_MAX_def)
  also have "fact 21 \<le> (fact k :: nat)"
    using assms by (rule fact_mono)
  then have "int (fact 21) \<le> int (fact k)"
    by (simp only: of_nat_le_iff)
  finally show ?thesis .
qed

lemma sint_word_of_int_c_int:
  assumes "- 2147483648 \<le> v" and "v \<le> 2147483647"
  shows "sint (word_of_int v :: c_int) = v"
proof -
  have "signed_take_bit 31 v = v"
    using assms by (intro signed_take_bit_int_eq_self) simp_all
  moreover have "sint (word_of_int v :: c_int) = signed_take_bit 31 v"
    by (simp only: sint_sbintrunc') simp
  ultimately show ?thesis
    by simp
qed

lemma c_factorial_exact:
  assumes "sint n \<le> 20"
  shows "map_option sint (c_factorial n) = Some (int (fact (nat (sint n))))"
proof -
  from assms have "nat (sint n) \<le> 20"
    by simp
  then have "int (fact (nat (sint n))) \<le> LONG_MAX"
    by (rule fact_le_20)
  then have "sint (of_nat (fact (nat (sint n))) :: c_long) = int (fact (nat (sint n)))"
    by (rule sint_of_nat_long)
  moreover from assms have "c_factorial n = Some (of_nat (fact (nat (sint n))))"
    by (intro c_factorial_value) simp
  ultimately show ?thesis
    by (simp only: option.map)
qed

text \<open>
  Where the factorial exceeds \<open>LONG_MAX\<close> and the loop returns, the result is the
  factorial modulo \<open>2 ^ 64\<close>, and is not the factorial.
\<close>

lemma c_factorial_wraps:
  assumes "21 \<le> sint n" and "sint n < 2147483647"
  shows "\<exists>r. c_factorial n = Some r \<and> unat r = fact (nat (sint n)) mod 2 ^ 64
    \<and> sint r \<noteq> int (fact (nat (sint n)))"
proof -
  let ?r = "of_nat (fact (nat (sint n))) :: c_long"
  have r: "c_factorial n = Some ?r"
    using assms(2) by (rule c_factorial_value)
  have u: "unat ?r = fact (nat (sint n)) mod 2 ^ 64"
    by (simp only: unat_of_nat) simp
  from assms(1) have "LONG_MAX < int (fact (nat (sint n)))"
    by (intro fact_ge_21) simp
  moreover have "sint ?r \<le> LONG_MAX"
    using sint_lt [of ?r] by (simp add: LONG_MAX_def)
  ultimately have "sint ?r \<noteq> int (fact (nat (sint n)))"
    by linarith
  with r u show ?thesis
    by blast
qed

text \<open>The same loop with the accumulator at the width of \<open>int\<close>.\<close>

lemma c_int_nonneg:
  fixes i :: c_int
  assumes "0 \<le> sint i"
  shows "i = of_nat (nat (sint i))"
proof -
  have "(of_nat (nat (sint i)) :: c_int) = of_int (int (nat (sint i)))"
    by (simp only: of_int_of_nat_eq)
  also have "int (nat (sint i)) = sint i"
    using assms by simp
  also have "(of_int (sint i) :: c_int) = i"
    by simp
  finally show ?thesis
    by (rule sym)
qed

lemma NativeInteger_factorial_loop_closed:
  assumes "sint n < 2147483647" and "2 \<le> sint i" and "sint i \<le> sint n + 1"
  shows "NativeInteger_factorial_loop n i (of_nat (fact (nat (sint i) - 1)))
    = Some (of_nat (fact (nat (sint n))))"
  using assms
proof (induction k \<equiv> "nat (sint n + 1 - sint i)" arbitrary: i)
  case 0
  then have eq: "sint i = sint n + 1"
    by simp
  then have "\<not> i \<le>s n"
    by (simp add: word_sle_eq)
  moreover from eq have "nat (sint i) - 1 = nat (sint n)"
    by simp
  ultimately show ?case
    by (subst NativeInteger_factorial_loop.simps) simp
next
  case (Suc k)
  then have le: "sint i \<le> sint n"
    by simp
  then have succ: "sint (i + 1) = sint i + 1"
    using Suc.prems(1) by (simp add: sint_succ)
  have pos: "0 < nat (sint i)"
    using Suc.prems(2) by simp
  have acc: "(of_nat (fact (nat (sint i) - 1)) :: c_int) * i = of_nat (fact (nat (sint (i + 1)) - 1))"
  proof -
    have "nat (sint (i + 1)) - 1 = nat (sint i)"
      using Suc.prems(2) by (simp add: succ)
    then have "(of_nat (fact (nat (sint (i + 1)) - 1)) :: c_int) = of_nat (fact (nat (sint i)))"
      by (simp only:)
    also have "fact (nat (sint i)) = fact (nat (sint i) - 1) * nat (sint i)"
      using pos by (simp add: fact_reduce)
    also have "(of_nat (fact (nat (sint i) - 1) * nat (sint i)) :: c_int)
        = of_nat (fact (nat (sint i) - 1)) * of_nat (nat (sint i))"
      by (simp only: of_nat_mult)
    also have "0 \<le> sint i"
      using Suc.prems(2) by simp
    then have "(of_nat (nat (sint i)) :: c_int) = i"
      by (rule c_int_nonneg [symmetric])
    finally show ?thesis
      by (rule sym)
  qed
  have "NativeInteger_factorial_loop n (i + 1) (of_nat (fact (nat (sint (i + 1)) - 1)))
      = Some (of_nat (fact (nat (sint n))))"
  proof (rule Suc.hyps(1))
    show "k = nat (sint n + 1 - sint (i + 1))"
      using Suc.hyps(2) by (simp add: succ)
    show "sint n < 2147483647" by (rule Suc.prems(1))
    show "2 \<le> sint (i + 1)" using Suc.prems(2) by (simp add: succ)
    show "sint (i + 1) \<le> sint n + 1" using le by (simp add: succ)
  qed
  with le acc show ?case
    by (subst NativeInteger_factorial_loop.simps) (simp add: word_sle_eq)
qed

lemma NativeInteger_factorial_value:
  assumes "sint n < 2147483647"
  shows "NativeInteger_factorial n = Some (of_nat (fact (nat (sint n))))"
proof (cases "sint n \<le> 1")
  case True
  then have "\<not> 2 \<le>s n"
    by (simp add: word_sle_eq)
  moreover from True have "nat (sint n) = 0 \<or> nat (sint n) = 1"
    by auto
  then have "fact (nat (sint n)) = (1::nat)"
    by auto
  ultimately show ?thesis
    unfolding NativeInteger_factorial_def by (subst NativeInteger_factorial_loop.simps) simp
next
  case False
  have "NativeInteger_factorial_loop n 2 (of_nat (fact (nat (sint (2 :: c_int)) - 1)))
      = Some (of_nat (fact (nat (sint n))))"
    using assms False by (intro NativeInteger_factorial_loop_closed) simp_all
  then show ?thesis
    by (simp add: NativeInteger_factorial_def)
qed

text \<open>
  The adapter after a successful parse: it returns exactly when the kernel does, and then
  the host integer of the kernel's result, the interpreter state unchanged.
\<close>

lemma py_factorial_wraps_kernel:
  assumes "convert_i x = Some n"
  shows "py_factorial s [x] =
    map_option (\<lambda>result. \<lparr>returned = Some (PyLong (sint result)), interp_after = s,
      kernel_calls = [n]\<rparr>) (c_factorial n)"
  using assms by (simp add: py_factorial_def PyLong_FromLong_def split: option.splits)

lemma convert_i_PyLong:
  assumes "- 2147483648 \<le> v" and "v \<le> 2147483647"
  shows "convert_i (PyLong v) = Some (word_of_int v)"
  using assms by (simp add: convert_i_def)

section \<open>The kernel's results\<close>

text \<open>
  C1. For every integer \<open>n\<close> with \<open>0 \<le> n \<le> 12\<close>, \<open>c_factorial n\<close> returns the exact
  factorial of \<open>n\<close> (1, 1, 2, 6, 24, ..., 479001600).
\<close>

theorem c_factorial_exact_upto_12:
  fixes n :: int
  assumes "0 \<le> n" and "n \<le> 12"
  shows "map_option sint (c_factorial (word_of_int n)) = Some (int (fact (nat n)))"
proof -
  from assms have "sint (word_of_int n :: c_int) = n"
    by (intro sint_word_of_int_c_int) simp_all
  with assms c_factorial_exact [of "word_of_int n"] show ?thesis
    by simp
qed

theorem c_factorial_exact_upto_12_witness:
  "(0::int) \<le> 12 \<and> (12::int) \<le> 12 \<and> map_option sint (c_factorial 12) = Some 479001600"
  using c_factorial_exact_upto_12 [of 12] by (simp add: fact_numeral)

text \<open>
  C9. The accumulator is a 64-bit \<open>long\<close> although the parameter is a 32-bit \<open>int\<close>, so
  \<open>c_factorial n\<close> is the exact factorial for every \<open>n\<close> with \<open>0 \<le> n \<le> 20\<close>: the
  factorial of 20 is 2432902008176640000 and fits in a signed 64-bit \<open>long\<close>.
\<close>

theorem c_factorial_exact_upto_20:
  fixes n :: int
  assumes "0 \<le> n" and "n \<le> 20"
  shows "map_option sint (c_factorial (word_of_int n)) = Some (int (fact (nat n)))
    \<and> int (fact (nat n)) \<le> LONG_MAX"
proof -
  from assms have "sint (word_of_int n :: c_int) = n"
    by (intro sint_word_of_int_c_int) simp_all
  with assms c_factorial_exact [of "word_of_int n"]
  have "map_option sint (c_factorial (word_of_int n)) = Some (int (fact (nat n)))"
    by simp
  moreover from assms have "int (fact (nat n)) \<le> LONG_MAX"
    by (intro fact_le_20) simp
  ultimately show ?thesis
    by (rule conjI)
qed

theorem c_factorial_exact_upto_20_witness:
  "(0::int) \<le> 20 \<and> (20::int) \<le> 20
    \<and> map_option sint (c_factorial 20) = Some 2432902008176640000
    \<and> (2432902008176640000 :: int) \<le> LONG_MAX"
  using c_factorial_exact_upto_20 [of 20] by (simp add: fact_numeral)

text \<open>
  C3. For every \<open>n \<le> 1\<close>, negative \<open>n\<close> included (the kernel does not check
  \<open>n \<ge> 0\<close>), \<open>c_factorial n\<close> returns 1: the range from 2 through \<open>n\<close> is empty, the
  loop body is never entered. In particular the results for 0 and for 1 are 1.
\<close>

theorem c_factorial_identity_le_1:
  assumes "sint n \<le> 1"
  shows "c_factorial n = Some 1"
proof -
  from assms have "\<not> 2 \<le>s n"
    by (simp add: word_sle_eq)
  then show ?thesis
    unfolding c_factorial_def by (subst c_factorial_loop.simps) simp
qed

theorem c_factorial_identity_le_1_witness:
  "sint (0 :: c_int) \<le> 1 \<and> sint (1 :: c_int) \<le> 1 \<and> sint (- 7 :: c_int) \<le> 1 \<and> sint INT_MIN \<le> 1
    \<and> c_factorial 0 = Some 1 \<and> c_factorial 1 = Some 1 \<and> c_factorial (- 7) = Some 1
    \<and> c_factorial INT_MIN = Some 1"
  using c_factorial_identity_le_1 [of 0] c_factorial_identity_le_1 [of 1]
    c_factorial_identity_le_1 [of "- 7"] c_factorial_identity_le_1 [of INT_MIN]
  by (simp add: INT_MIN_def)

text \<open>
  C6, as stated: the kernel's parameter and its accumulator share one fixed-width signed
  type, so that the accumulation is carried out at the width of the parameter. It is not:
  at \<open>n = 13\<close> the kernel returns 6227020800, which exceeds \<open>INT_MAX\<close>, where an
  accumulator of the parameter's type gives 1932053504.
\<close>

theorem c_factorial_13_exceeds_parameter_width:
  "c_factorial 13 = Some 6227020800
    \<and> NativeInteger_factorial 13 = Some 1932053504
    \<and> sint INT_MAX < sint (6227020800 :: c_long)
    \<and> c_factorial 13 \<noteq> map_option scast (NativeInteger_factorial 13)"
proof -
  have a: "c_factorial 13 = Some 6227020800"
    by (simp add: c_factorial_value fact_numeral)
  have b: "NativeInteger_factorial 13 = Some 1932053504"
    by (simp add: NativeInteger_factorial_value fact_numeral)
  have c: "sint INT_MAX < sint (6227020800 :: c_long)"
    by (simp add: INT_MAX_def)
  have d: "(6227020800 :: c_long) \<noteq> scast (1932053504 :: c_int)"
    by simp
  from a b c d show ?thesis
    by simp
qed

text \<open>
  C6, amended: the parameter is a 32-bit \<open>int\<close> and the accumulator a 64-bit \<open>long\<close>. For
  every \<open>n\<close> below \<open>INT_MAX\<close> the accumulation is carried out at the width of \<open>long\<close>, the
  result being the factorial modulo \<open>2 ^ 64\<close>; at the parameter's width it would be the
  factorial modulo \<open>2 ^ 32\<close>.
\<close>

theorem c_factorial_accumulator_width:
  assumes "sint n < sint INT_MAX"
  shows "map_option unat (c_factorial n) = Some (fact (nat (sint n)) mod 2 ^ 64)
    \<and> map_option unat (NativeInteger_factorial n) = Some (fact (nat (sint n)) mod 2 ^ 32)"
proof -
  from assms have n: "sint n < 2147483647"
    by (simp add: INT_MAX_def)
  have "unat (of_nat (fact (nat (sint n))) :: c_long) = fact (nat (sint n)) mod 2 ^ 64"
    by (simp only: unat_of_nat) simp
  moreover have "unat (of_nat (fact (nat (sint n))) :: c_int) = fact (nat (sint n)) mod 2 ^ 32"
    by (simp only: unat_of_nat) simp
  ultimately show ?thesis
    by (simp only: c_factorial_value [OF n] NativeInteger_factorial_value [OF n] option.map)
qed

theorem c_factorial_accumulator_width_witness:
  "sint (13 :: c_int) < sint INT_MAX
    \<and> map_option unat (c_factorial 13) = Some 6227020800
    \<and> map_option unat (NativeInteger_factorial 13) = Some 1932053504"
  using c_factorial_accumulator_width [of 13] by (simp add: INT_MAX_def fact_numeral)

section \<open>The boundary \<open>INT_MAX\<close>\<close>

text \<open>
  C7. The kernel is claimed total over its native input domain: for every representable
  \<open>n\<close>, \<open>INT_MIN\<close> and \<open>INT_MAX\<close> included, it terminates and returns a value. At
  \<open>n = INT_MAX\<close> it does not: the test \<open>i <= n\<close> can never fail, the increment of
  \<open>i = INT_MAX\<close> overflows (and wraps to \<open>INT_MIN\<close>), and the loop has no exit. For every
  other \<open>n\<close> the kernel returns (lemma \<open>c_factorial_value\<close>).
\<close>

theorem c_factorial_INT_MAX_no_return: "c_factorial INT_MAX = None"
  unfolding c_factorial_def by (rule c_factorial_loop_INT_MAX)

text \<open>
  C5. For every \<open>n\<close> whose exact factorial exceeds the range of the result type, the
  kernel is claimed to return a silently wrapped value, the call succeeding without an
  error. It does so for \<open>21 \<le> n < INT_MAX\<close> (lemma \<open>c_factorial_wraps\<close>); at
  \<open>n = INT_MAX\<close>, whose factorial exceeds \<open>LONG_MAX\<close> too, the call does not return.
\<close>

theorem c_factorial_overflow_INT_MAX:
  "LONG_MAX < int (fact (nat (sint INT_MAX))) \<and> c_factorial INT_MAX = None"
proof
  have "(21::nat) \<le> nat (sint INT_MAX)"
    by (simp add: INT_MAX_def)
  then show "LONG_MAX < int (fact (nat (sint INT_MAX)))"
    by (rule fact_ge_21)
  show "c_factorial INT_MAX = None"
    unfolding c_factorial_def by (rule c_factorial_loop_INT_MAX)
qed

text \<open>
  C4. For every argument tuple whose single element parses to a native integer \<open>n\<close>, the
  adapter is claimed to return a new host integer whose value is the kernel's result,
  without any other observable effect. It does so whenever the kernel returns (lemma
  \<open>py_factorial_wraps_kernel\<close>); the host integer 2147483647 parses to \<open>INT_MAX\<close>, where
  the kernel does not return, and neither does the adapter.
\<close>

theorem py_factorial_INT_MAX_no_return:
  "convert_i (PyLong 2147483647) = Some INT_MAX \<and> py_factorial s [PyLong 2147483647] = None"
proof -
  have c: "convert_i (PyLong 2147483647) = Some INT_MAX"
    by (simp add: convert_i_def INT_MAX_def)
  moreover have "c_factorial INT_MAX = None"
    unfolding c_factorial_def by (rule c_factorial_loop_INT_MAX)
  ultimately show ?thesis
    by (simp add: py_factorial_wraps_kernel [OF c])
qed

section \<open>The adapter\<close>

text \<open>
  C2. For every argument tuple that does not have exactly one element, or whose single
  element cannot be converted to the native integer type (wrong type, or out of the
  native range), the adapter signals ArityError or TypeConversionError through the error
  indicator, returns \<open>NULL\<close>, and does not call the kernel.
\<close>

theorem py_factorial_parse_failure:
  assumes "length args \<noteq> 1 \<or> (\<exists>x. args = [x] \<and> convert_i x = None)"
  shows "py_factorial s args =
    Some \<lparr>returned = None,
          interp_after = s\<lparr>err_indicator :=
            Some (if length args = 1 then TypeConversionError else ArityError)\<rparr>,
          kernel_calls = []\<rparr>"
proof (cases args)
  case Nil
  then show ?thesis
    by (simp add: py_factorial_def)
next
  case (Cons x xs)
  show ?thesis
  proof (cases xs)
    case Nil
    with Cons assms have "convert_i x = None"
      by simp
    with Cons Nil show ?thesis
      by (simp add: py_factorial_def)
  next
    case (Cons y ys)
    with \<open>args = x # xs\<close> show ?thesis
      by (simp add: py_factorial_def)
  qed
qed

theorem py_factorial_parse_failure_witness:
  "convert_i (PyUnicode ''five'') = None \<and> convert_i (PyLong 2147483648) = None
    \<and> length ([] :: py_object list) = 0 \<and> length [PyLong 3, PyLong 4] = 2
    \<and> py_factorial \<lparr>err_indicator = None\<rparr> [PyUnicode ''five''] =
        Some \<lparr>returned = None, interp_after = \<lparr>err_indicator = Some TypeConversionError\<rparr>,
              kernel_calls = []\<rparr>
    \<and> py_factorial \<lparr>err_indicator = None\<rparr> [PyLong 2147483648] =
        Some \<lparr>returned = None, interp_after = \<lparr>err_indicator = Some TypeConversionError\<rparr>,
              kernel_calls = []\<rparr>
    \<and> py_factorial \<lparr>err_indicator = None\<rparr> [] =
        Some \<lparr>returned = None, interp_after = \<lparr>err_indicator = Some ArityError\<rparr>,
              kernel_calls = []\<rparr>
    \<and> py_factorial \<lparr>err_indicator = None\<rparr> [PyLong 3, PyLong 4] =
        Some \<lparr>returned = None, interp_after = \<lparr>err_indicator = Some ArityError\<rparr>,
              kernel_calls = []\<rparr>"
  using py_factorial_parse_failure [of "[PyUnicode ''five'']" "\<lparr>err_indicator = None\<rparr>"]
    py_factorial_parse_failure [of "[PyLong 2147483648]" "\<lparr>err_indicator = None\<rparr>"]
    py_factorial_parse_failure [of "[]" "\<lparr>err_indicator = None\<rparr>"]
    py_factorial_parse_failure [of "[PyLong 3, PyLong 4]" "\<lparr>err_indicator = None\<rparr>"]
  by (simp add: convert_i_def)

text \<open>
  C8. For every \<open>n\<close> in the valid range, two calls with the same argument \<open>n\<close> return
  equal values, and no state persists between calls: there is one value that the call
  returns from every interpreter state, and the call leaves the state as it found it.
  This holds for every \<open>n\<close> of the native range below \<open>INT_MAX\<close>.
\<close>

theorem py_factorial_repeatable:
  fixes n :: int
  assumes "- 2147483648 \<le> n" and "n < 2147483647"
  shows "\<exists>v. \<forall>s. py_factorial s [PyLong n] =
    Some \<lparr>returned = Some v, interp_after = s, kernel_calls = [word_of_int n]\<rparr>"
proof -
  from assms have c: "convert_i (PyLong n) = Some (word_of_int n)"
    by (intro convert_i_PyLong) simp_all
  from assms have "sint (word_of_int n :: c_int) = n"
    by (intro sint_word_of_int_c_int) simp_all
  with assms have "sint (word_of_int n :: c_int) < 2147483647"
    by simp
  then have k: "c_factorial (word_of_int n) = Some (of_nat (fact (nat (sint (word_of_int n :: c_int)))))"
    by (rule c_factorial_value)
  show ?thesis
    by (rule exI [of _ "PyLong (sint (of_nat (fact (nat (sint (word_of_int n :: c_int)))) :: c_long))"])
      (simp add: py_factorial_wraps_kernel [OF c] k)
qed

theorem py_factorial_repeatable_witness:
  "(- 2147483648 :: int) \<le> 5 \<and> (5 :: int) < 2147483647
    \<and> (\<exists>v. \<forall>s. py_factorial s [PyLong 5] =
          Some \<lparr>returned = Some v, interp_after = s, kernel_calls = [5]\<rparr>)"
  using py_factorial_repeatable [of 5] by simp

text \<open>
  C10. Some host arguments that are not of the host's integer type are converted by the
  parse step: a boolean, or an object with an integer-index method. The kernel is then
  called and no TypeConversionError is raised.
\<close>

theorem py_factorial_accepts_bool_and_index:
  "py_factorial s [PyBool True] =
      Some \<lparr>returned = Some (PyLong 1), interp_after = s, kernel_calls = [1]\<rparr>
    \<and> py_factorial s [PyBool False] =
      Some \<lparr>returned = Some (PyLong 1), interp_after = s, kernel_calls = [0]\<rparr>
    \<and> py_factorial s [PyIndexable 5] =
      Some \<lparr>returned = Some (PyLong 120), interp_after = s, kernel_calls = [5]\<rparr>"
proof -
  have t: "convert_i (PyBool True) = Some 1"
    and f: "convert_i (PyBool False) = Some 0"
    and i: "convert_i (PyIndexable 5) = Some 5"
    by (simp_all add: convert_i_def)
  have "c_factorial 1 = Some 1" and "c_factorial 0 = Some 1" and "c_factorial 5 = Some 120"
    by (simp_all add: c_factorial_value fact_numeral)
  then show ?thesis
    by (simp add: py_factorial_wraps_kernel [OF t] py_factorial_wraps_kernel [OF f]
        py_factorial_wraps_kernel [OF i])
qed

end
